theory Spec2Isabelle
  imports Main "HOL-Library.Char_ord" "HOL-Library.List_Lexorder" "HOL-Library.Product_Lexorder"
    "HOL-Library.AList" "HOL-Library.Multiset"
begin

section \<open>Python values\<close>

text \<open>
  The exceptions the modelled methods can raise. A method that can raise returns
  \<open>error + 'a\<close>, with \<open>Inl\<close> for the exception.
\<close>

datatype error = TypeError | ValueError | KeyError | ZeroDivisionError

text \<open>
  The values held by the containers: \<open>None\<close>, \<open>int\<close>, \<open>str\<close>, \<open>list\<close> and \<open>tuple\<close> objects.
  On these, Python's \<open>==\<close> is HOL equality. Values of type \<open>bool\<close> and \<open>float\<close>, sets,
  dicts and instances of user classes are outside the model.
\<close>

datatype pyval =
    PNone
  | PInt int
  | PStr string
  | PList "pyval list"
  | PTuple "pyval list"

datatype pytype = TNoneType | TInt | TStr | TList | TTuple

text \<open>\<open>type(x)\<close>\<close>

fun py_type :: "pyval \<Rightarrow> pytype" where
  "py_type PNone = TNoneType"
| "py_type (PInt i) = TInt"
| "py_type (PStr s) = TStr"
| "py_type (PList xs) = TList"
| "py_type (PTuple xs) = TTuple"

text \<open>
  \<open>repr(x)\<close> and \<open>str(x)\<close> on the modelled values. A \<open>char\<close> stands for the code point of
  the same number. \<open>repr\<close> of a string quotes it with \<open>'\<close>, or with \<open>"\<close> when it holds a
  \<open>'\<close> and no \<open>"\<close>, and escapes the quote, the backslash and the characters that are not
  printable.
\<close>

definition digit_char :: "nat \<Rightarrow> char" where
  "digit_char n = ''0123456789abcdef'' ! n"

function str_nat :: "nat \<Rightarrow> string" where
  "str_nat n = (if n < 10 then [digit_char n] else str_nat (n div 10) @ [digit_char (n mod 10)])"
  by pat_completeness auto
termination
  by (relation "measure (\<lambda>n. n)") auto

definition str_int :: "int \<Rightarrow> string" where
  "str_int i = (if i < 0 then CHR ''-'' # str_nat (nat (- i)) else str_nat (nat i))"

definition hex_escape :: "char \<Rightarrow> string" where
  "hex_escape c =
     [CHR 0x5C, CHR ''x'', digit_char (of_char c div 16), digit_char (of_char c mod 16)]"

definition printable :: "char \<Rightarrow> bool" where
  "printable c =
     (let n = of_char c :: nat
      in (32 \<le> n \<and> n < 127) \<or> (161 \<le> n \<and> n \<noteq> 173))"

definition repr_char :: "char \<Rightarrow> char \<Rightarrow> string" where
  "repr_char quote c =
     (if c = quote \<or> c = CHR 0x5C then [CHR 0x5C, c]
      else if c = CHR 0x09 then [CHR 0x5C, CHR ''t'']
      else if c = CHR 0x0A then [CHR 0x5C, CHR ''n'']
      else if c = CHR 0x0D then [CHR 0x5C, CHR ''r'']
      else if printable c then [c]
      else hex_escape c)"

definition repr_str :: "string \<Rightarrow> string" where
  "repr_str s =
     (let quote = (if CHR 0x27 \<in> set s \<and> CHR 0x22 \<notin> set s then CHR 0x22 else CHR 0x27)
      in [quote] @ concat (map (repr_char quote) s) @ [quote])"

fun join :: "string \<Rightarrow> string list \<Rightarrow> string" where
  "join sep [] = []"
| "join sep [x] = x"
| "join sep (x # y # ys) = x @ sep @ join sep (y # ys)"

fun py_repr :: "pyval \<Rightarrow> string" where
  "py_repr PNone = ''None''"
| "py_repr (PInt i) = str_int i"
| "py_repr (PStr s) = repr_str s"
| "py_repr (PList xs) = ''['' @ join '', '' (map py_repr xs) @ '']''"
| "py_repr (PTuple xs) =
     (if length xs = 1 then ''('' @ join '', '' (map py_repr xs) @ '',)''
      else ''('' @ join '', '' (map py_repr xs) @ '')'')"

definition py_str :: "pyval \<Rightarrow> string" where
  "py_str v = (case v of PStr s \<Rightarrow> s | _ \<Rightarrow> py_repr v)"

text \<open>
  \<open>a < b\<close>: integers by value, strings by code point, lists and tuples at their first
  differing position (or by length when one is a prefix of the other); every other
  pair of operands raises \<open>TypeError\<close>.
\<close>

fun py_lt :: "pyval \<Rightarrow> pyval \<Rightarrow> error + bool"
  and py_lt_seq :: "pyval list \<Rightarrow> pyval list \<Rightarrow> error + bool" where
  "py_lt (PInt a) (PInt b) = Inr (a < b)"
| "py_lt (PStr a) (PStr b) = Inr (a < b)"
| "py_lt (PList a) (PList b) = py_lt_seq a b"
| "py_lt (PTuple a) (PTuple b) = py_lt_seq a b"
| "py_lt a b = Inl TypeError"
| "py_lt_seq [] [] = Inr False"
| "py_lt_seq [] (y # ys) = Inr True"
| "py_lt_seq (x # xs) [] = Inr False"
| "py_lt_seq (x # xs) (y # ys) = (if x = y then py_lt_seq xs ys else py_lt x y)"

text \<open>\<open>a > b\<close> compares the same positions as \<open>b < a\<close> and fails on the same operands.\<close>

definition py_gt :: "pyval \<Rightarrow> pyval \<Rightarrow> error + bool" where
  "py_gt a b = py_lt b a"

text \<open>
  \<open>max(xs)\<close> and \<open>min(xs)\<close>: \<open>ValueError\<close> on an empty list; otherwise the first item is
  the candidate and each later item replaces it when it compares greater (less).
\<close>

fun py_max_from :: "pyval \<Rightarrow> pyval list \<Rightarrow> error + pyval" where
  "py_max_from m [] = Inr m"
| "py_max_from m (x # xs) =
     (case py_gt x m of Inl e \<Rightarrow> Inl e | Inr b \<Rightarrow> py_max_from (if b then x else m) xs)"

definition py_max :: "pyval list \<Rightarrow> error + pyval" where
  "py_max xs = (case xs of [] \<Rightarrow> Inl ValueError | x # rest \<Rightarrow> py_max_from x rest)"

fun py_min_from :: "pyval \<Rightarrow> pyval list \<Rightarrow> error + pyval" where
  "py_min_from m [] = Inr m"
| "py_min_from m (x # xs) =
     (case py_lt x m of Inl e \<Rightarrow> Inl e | Inr b \<Rightarrow> py_min_from (if b then x else m) xs)"

definition py_min :: "pyval list \<Rightarrow> error + pyval" where
  "py_min xs = (case xs of [] \<Rightarrow> Inl ValueError | x # rest \<Rightarrow> py_min_from x rest)"

text \<open>\<open>min\<close> and \<open>max\<close> of a list of integers (lengths): the comparisons cannot fail.\<close>

definition py_min_int :: "int list \<Rightarrow> error + int" where
  "py_min_int ns = (case ns of [] \<Rightarrow> Inl ValueError | n # rest \<Rightarrow> Inr (fold min rest n))"

definition py_max_int :: "int list \<Rightarrow> error + int" where
  "py_max_int ns = (case ns of [] \<Rightarrow> Inl ValueError | n # rest \<Rightarrow> Inr (fold max rest n))"

text \<open>
  \<open>operator.add\<close> and \<open>operator.floordiv\<close> on the modelled values. Python's \<open>//\<close> rounds
  towards minus infinity, as \<open>div\<close> on \<open>int\<close> does.
\<close>

fun py_add :: "pyval \<Rightarrow> pyval \<Rightarrow> error + pyval" where
  "py_add (PInt a) (PInt b) = Inr (PInt (a + b))"
| "py_add (PStr a) (PStr b) = Inr (PStr (a @ b))"
| "py_add (PList a) (PList b) = Inr (PList (a @ b))"
| "py_add (PTuple a) (PTuple b) = Inr (PTuple (a @ b))"
| "py_add a b = Inl TypeError"

fun py_floordiv :: "pyval \<Rightarrow> pyval \<Rightarrow> error + pyval" where
  "py_floordiv (PInt a) (PInt b) = (if b = 0 then Inl ZeroDivisionError else Inr (PInt (a div b)))"
| "py_floordiv a b = Inl TypeError"

text \<open>
  A slice \<open>xs[i1:i2]\<close> with integer bounds: a negative bound counts from the end, and
  both bounds are clamped into \<open>[0, len(xs)]\<close>.
\<close>

definition slice_bound :: "nat \<Rightarrow> int \<Rightarrow> nat" where
  "slice_bound n i = (if i < 0 then nat (max 0 (int n + i)) else min n (nat i))"

definition py_slice :: "'a list \<Rightarrow> int \<Rightarrow> int \<Rightarrow> 'a list" where
  "py_slice xs i1 i2 =
     (let lo = slice_bound (length xs) i1; hi = slice_bound (length xs) i2
      in take (hi - lo) (drop lo xs))"

text \<open>\<open>list(range(start, stop, step))\<close> for a positive step, the only use in the source.\<close>

function py_range :: "int \<Rightarrow> int \<Rightarrow> int \<Rightarrow> int list" where
  "py_range start stop step =
     (if 0 < step \<and> start < stop then start # py_range (start + step) stop step else [])"
  by pat_completeness auto
termination
  by (relation "measure (\<lambda>(start, stop, step). nat (stop - start))") auto

text \<open>
  A \<open>dict\<close> is an association list in insertion order. \<open>d.get(k, default)\<close>,
  \<open>d[k] = v\<close> (\<open>AList.update\<close>: in place when the key is present, appended otherwise)
  and \<open>dict(items)\<close>.
\<close>

definition dict_get :: "('k \<times> 'v) list \<Rightarrow> 'k \<Rightarrow> 'v \<Rightarrow> 'v" where
  "dict_get d k default_value = (case map_of d k of None \<Rightarrow> default_value | Some v \<Rightarrow> v)"

definition py_dict :: "('k \<times> 'v) list \<Rightarrow> ('k \<times> 'v) list" where
  "py_dict items = fold (\<lambda>(k, v). AList.update k v) items []"

text \<open>
  \<open>sorted(xs, key=key, reverse=reverse)\<close> with keys in a linear order: the keys are
  computed first, left to right, then the list is sorted stably; with \<open>reverse\<close> the
  order is descending and items with equal keys still keep their original order.
\<close>

fun decorate :: "('a \<Rightarrow> error + 'k) \<Rightarrow> 'a list \<Rightarrow> error + ('k \<times> 'a) list" where
  "decorate key [] = Inr []"
| "decorate key (x # xs) =
     (case key x of Inl e \<Rightarrow> Inl e
      | Inr k \<Rightarrow> (case decorate key xs of Inl e \<Rightarrow> Inl e | Inr r \<Rightarrow> Inr ((k, x) # r)))"

definition py_sorted_key :: "('a \<Rightarrow> error + 'k::linorder) \<Rightarrow> bool \<Rightarrow> 'a list \<Rightarrow> error + 'a list" where
  "py_sorted_key key reverse xs =
     (case decorate key xs of Inl e \<Rightarrow> Inl e
      | Inr kxs \<Rightarrow>
          Inr (map snd (if reverse then rev (sort_key fst (rev kxs)) else sort_key fst kxs)))"

text \<open>
  \<open>sorted(xs)\<close> with a comparison \<open>lt\<close> that can raise: a stable insertion sort that
  stops at the first comparison that raises. CPython's sort may compare other pairs;
  the results below use only that the outcome is an exception raised by \<open>lt\<close> or a
  rearrangement of \<open>xs\<close>.
\<close>

fun py_insort :: "('a \<Rightarrow> 'a \<Rightarrow> error + bool) \<Rightarrow> 'a \<Rightarrow> 'a list \<Rightarrow> error + 'a list" where
  "py_insort lt x [] = Inr [x]"
| "py_insort lt x (y # ys) =
     (case lt x y of Inl e \<Rightarrow> Inl e
      | Inr b \<Rightarrow> if b then Inr (x # y # ys)
                else (case py_insort lt x ys of Inl e \<Rightarrow> Inl e | Inr r \<Rightarrow> Inr (y # r)))"

fun py_sorted_from :: "('a \<Rightarrow> 'a \<Rightarrow> error + bool) \<Rightarrow> 'a list \<Rightarrow> 'a list \<Rightarrow> error + 'a list" where
  "py_sorted_from lt acc [] = Inr acc"
| "py_sorted_from lt acc (x # xs) =
     (case py_insort lt x acc of Inl e \<Rightarrow> Inl e | Inr acc' \<Rightarrow> py_sorted_from lt acc' xs)"

definition py_sorted :: "('a \<Rightarrow> 'a \<Rightarrow> error + bool) \<Rightarrow> 'a list \<Rightarrow> error + 'a list" where
  "py_sorted lt xs = py_sorted_from lt [] xs"

section \<open>DictExt\<close>

record 'k DictAnalyzeResult =
  max_value :: pyval
  min_value :: pyval
  max_list :: "('k \<times> pyval) list"
  min_list :: "('k \<times> pyval) list"

text \<open>The body of the \<open>try\<close> block of \<open>DictExt.analyze\<close>.\<close>

definition analyze_try :: "('k \<times> pyval) list \<Rightarrow> error + 'k DictAnalyzeResult" where
  "analyze_try dct =
     (case py_max (map snd dct) of Inl e \<Rightarrow> Inl e
      | Inr max_val \<Rightarrow>
     (case py_min (map snd dct) of Inl e \<Rightarrow> Inl e
      | Inr min_val \<Rightarrow>
          Inr \<lparr>max_value = max_val, min_value = min_val,
               max_list = filter (\<lambda>(k, v). v = max_val) dct,
               min_list = filter (\<lambda>(k, v). v = min_val) dct\<rparr>))"

text \<open>\<open>DictExt.analyze\<close>: a \<open>TypeError\<close> of the body is re-raised as \<open>ValueError\<close>.\<close>

definition analyze :: "('k \<times> pyval) list \<Rightarrow> error + 'k DictAnalyzeResult" where
  "analyze self = (case analyze_try self of Inl TypeError \<Rightarrow> Inl ValueError | r \<Rightarrow> r)"

text \<open>
  \<open>DictExt.aggregate\<close>. The loop runs over \<open>set(self) | set(other_dict)\<close>; the order in
  which a set is iterated is not fixed by the language, so it is the parameter
  \<open>set_iter\<close>, from the keys put into the set to the sequence the iteration yields.
  The operator returns a value or raises.
\<close>

fun aggregate_loop ::
  "('k \<times> pyval) list \<Rightarrow> ('k \<times> pyval) list \<Rightarrow> pyval \<Rightarrow> (pyval \<Rightarrow> pyval \<Rightarrow> error + pyval)
   \<Rightarrow> 'k list \<Rightarrow> ('k \<times> pyval) list \<Rightarrow> error + ('k \<times> pyval) list" where
  "aggregate_loop self other_dict default_value operator_func [] merged_output = Inr merged_output"
| "aggregate_loop self other_dict default_value operator_func (k # ks) merged_output =
     (let value_self = dict_get self k default_value;
          value_other = dict_get other_dict k default_value
      in case operator_func value_self value_other of
           Inr v \<Rightarrow>
             aggregate_loop self other_dict default_value operator_func ks
               (AList.update k v merged_output)
         | Inl TypeError \<Rightarrow>
             aggregate_loop self other_dict default_value operator_func ks
               (AList.update k (PList [value_self, value_other]) merged_output)
         | Inl e \<Rightarrow> Inl e)"

definition aggregate ::
  "('k list \<Rightarrow> 'k list) \<Rightarrow> ('k \<times> pyval) list \<Rightarrow> ('k \<times> pyval) list \<Rightarrow> pyval
   \<Rightarrow> (pyval \<Rightarrow> pyval \<Rightarrow> error + pyval) \<Rightarrow> error + ('k \<times> pyval) list" where
  "aggregate set_iter self other_dict default_value operator_func =
     (let all_keys = set_iter (map fst self @ map fst other_dict)
      in aggregate_loop self other_dict default_value operator_func all_keys [])"

section \<open>ListExt\<close>

subsection \<open>sorts\<close>

text \<open>
  \<open>ListExt.sorts\<close>, for any kind of element: \<open>ty\<close> is \<open>type\<close> and \<open>str\<close> is \<open>str\<close> on the
  elements. \<open>type_weights\<close> is the dict built by the first loop; a lookup of a missing
  key in the sort key raises \<open>KeyError\<close>.
\<close>

definition type_weights_step :: "('a \<Rightarrow> 't) \<Rightarrow> 'a \<Rightarrow> ('t \<times> nat) list \<Rightarrow> ('t \<times> nat) list" where
  "type_weights_step ty x tw =
     (if map_of tw (ty x) = None then AList.update (ty x) (length tw) tw else tw)"

definition type_weights :: "('a \<Rightarrow> 't) \<Rightarrow> 'a list \<Rightarrow> ('t \<times> nat) list" where
  "type_weights ty lst = fold (type_weights_step ty) lst []"

definition sorts_key :: "('a \<Rightarrow> 't) \<Rightarrow> ('a \<Rightarrow> string) \<Rightarrow> ('t \<times> nat) list \<Rightarrow> 'a \<Rightarrow> error + nat \<times> string" where
  "sorts_key ty str tw x =
     (case map_of tw (ty x) of None \<Rightarrow> Inl KeyError | Some w \<Rightarrow> Inr (w, str x))"

definition sorts :: "('a \<Rightarrow> 't) \<Rightarrow> ('a \<Rightarrow> string) \<Rightarrow> 'a list \<Rightarrow> bool \<Rightarrow> error + 'a list" where
  "sorts ty str self reverse =
     (let lst = self
      in py_sorted_key (sorts_key ty str (type_weights ty lst)) reverse lst)"

subsection \<open>freq\<close>

text \<open>
  \<open>Counter(xs)\<close>: the elements must be hashable (a list is not, a tuple is when its
  items are); the keys are kept in the order of their first occurrence.
\<close>

fun hashable :: "pyval \<Rightarrow> bool" where
  "hashable (PList xs) = False"
| "hashable (PTuple xs) = list_all hashable xs"
| "hashable v = True"

definition counter_add :: "pyval \<Rightarrow> (pyval \<times> int) list \<Rightarrow> (pyval \<times> int) list" where
  "counter_add x c = AList.update x (dict_get c x 0 + 1) c"

definition Counter :: "pyval list \<Rightarrow> error + (pyval \<times> int) list" where
  "Counter xs = (if list_all hashable xs then Inr (fold counter_add xs []) else Inl TypeError)"

text \<open>An item \<open>(key, count)\<close> of \<open>temp.items()\<close> as the tuple object it is.\<close>

definition item_tuple :: "pyval \<times> int \<Rightarrow> pyval" where
  "item_tuple kv = PTuple [fst kv, PInt (snd kv)]"

text \<open>\<open>accumulate(ns, operator.add)\<close> on integers: the running sums.\<close>

fun accumulate_from :: "int \<Rightarrow> int list \<Rightarrow> int list" where
  "accumulate_from running [] = []"
| "accumulate_from running (n # ns) = (running + n) # accumulate_from (running + n) ns"

definition accumulate :: "int list \<Rightarrow> int list" where
  "accumulate ns = accumulate_from 0 ns"

datatype freq_result = FreqDict "(pyval \<times> int) list" | FreqIncrement "int list"

text \<open>The three stages of \<open>ListExt.freq\<close>: \<open>data\<close>, \<open>temp\<close> and \<open>times_appear\<close>.\<close>

definition freq_data :: "(pyval \<Rightarrow> string) \<Rightarrow> pyval list \<Rightarrow> bool \<Rightarrow> error + pyval list" where
  "freq_data str self do_sort = (if do_sort then sorts py_type str self False else Inr self)"

definition freq_temp :: "(pyval \<Rightarrow> string) \<Rightarrow> pyval list \<Rightarrow> int option \<Rightarrow> error + (pyval \<times> int) list" where
  "freq_temp str data num_of_first_char =
     (case num_of_first_char of
        None \<Rightarrow> Counter data
      | Some c \<Rightarrow>
          (case py_min_int (map (\<lambda>x. int (length (str x))) data) of
             Inl e \<Rightarrow> Inl e
           | Inr max_char \<Rightarrow>
               if \<not> (1 \<le> c \<and> c < max_char) then Counter data
               else Counter (map (\<lambda>x. PStr (py_slice (str x) 0 c)) data)))"

definition freq_times_appear :: "(pyval \<Rightarrow> string) \<Rightarrow> (pyval \<times> int) list \<Rightarrow> error + (pyval \<times> int) list" where
  "freq_times_appear str temp =
     (case py_sorted (\<lambda>a b. py_lt (item_tuple a) (item_tuple b)) temp of
        Inr items \<Rightarrow> Inr (py_dict items)
      | Inl TypeError \<Rightarrow>
          (case sorts (\<lambda>kv. py_type (item_tuple kv)) (\<lambda>kv. str (item_tuple kv)) temp False of
             Inl e \<Rightarrow> Inl e
           | Inr items \<Rightarrow> Inr (py_dict items))
      | Inl e \<Rightarrow> Inl e)"

definition freq :: "(pyval \<Rightarrow> string) \<Rightarrow> pyval list \<Rightarrow> bool \<Rightarrow> int option \<Rightarrow> bool \<Rightarrow> error + freq_result" where
  "freq str self do_sort num_of_first_char appear_increment =
     (case freq_data str self do_sort of Inl e \<Rightarrow> Inl e
      | Inr data \<Rightarrow>
     (case freq_temp str data num_of_first_char of Inl e \<Rightarrow> Inl e
      | Inr temp \<Rightarrow>
     (case freq_times_appear str temp of Inl e \<Rightarrow> Inl e
      | Inr times_appear \<Rightarrow>
          if appear_increment then Inr (FreqIncrement (accumulate (map snd times_appear)))
          else Inr (FreqDict times_appear))))"

subsection \<open>flatten\<close>

fun instance_checking :: "pyval \<Rightarrow> pyval list" where
  "instance_checking (PStr s) = [PStr s]"
| "instance_checking (PList xs) = xs"
| "instance_checking (PTuple xs) = xs"
| "instance_checking item = [item]"

fun condition :: "pyval \<Rightarrow> bool" where
  "condition (PStr s) = False"
| "condition (PList xs) = True"
| "condition (PTuple xs) = True"
| "condition item = False"

text \<open>One pass, \<open>chain(*list_of_list)\<close>, and the \<open>while\<close> loop of the recursive case.\<close>

definition flatten_once :: "pyval list \<Rightarrow> pyval list" where
  "flatten_once self = concat (map instance_checking self)"

function flatten_loop :: "pyval list \<Rightarrow> pyval list" where
  "flatten_loop flattened =
     (if list_ex condition flattened then flatten_loop (flatten_once flattened) else flattened)"
  by pat_completeness auto
termination
proof (relation "measure (\<lambda>flattened. sum_list (map size flattened))")
  show "wf (measure (\<lambda>flattened. sum_list (map size flattened)))"
    by simp
next
  fix flattened :: "pyval list"
  assume c: "list_ex condition flattened"
  have le: "sum_list (map size (instance_checking v)) \<le> size v" for v :: pyval
    by (cases v) (simp_all add: size_list_conv_sum_list)
  have lt: "condition v \<Longrightarrow> sum_list (map size (instance_checking v)) < size v" for v :: pyval
    by (cases v) (simp_all add: size_list_conv_sum_list)
  from c have "sum_list (map size (concat (map instance_checking flattened)))
      < sum_list (map size flattened)"
  proof (induction flattened)
    case Nil
    then show ?case by simp
  next
    case (Cons v vs)
    have all: "sum_list (map size (concat (map instance_checking ws))) \<le> sum_list (map size ws)"
      for ws :: "pyval list"
      by (induction ws) (simp_all add: add_mono le)
    show ?case
    proof (cases "condition v")
      case True
      then show ?thesis using lt[of v] all[of vs] by simp
    next
      case False
      with Cons.prems have "list_ex condition vs" by simp
      then show ?thesis using Cons.IH le[of v] by simp
    qed
  qed
  then show "(flatten_once flattened, flattened) \<in> measure (\<lambda>flattened. sum_list (map size flattened))"
    by (simp add: flatten_once_def)
qed

definition flatten :: "pyval list \<Rightarrow> bool \<Rightarrow> pyval list" where
  "flatten self recursive =
     (let flattened = flatten_once self
      in if recursive then flatten_loop flattened else flattened)"

subsection \<open>group_by_pair_value\<close>

text \<open>
  The inner statement of the first loop; one pass of the outer loop, where \<open>list_set\<close>
  is \<open>list(set(xs))\<close>, whose order the language does not fix; and \<open>groupby\<close> keeping the
  first of each run of equal neighbours (\<open>remdups_adj\<close>).
\<close>

definition temp_add :: "'a list \<Rightarrow> 'a \<Rightarrow> ('a \<times> 'a list list) list \<Rightarrow> ('a \<times> 'a list list) list" where
  "temp_add item x temp =
     (case map_of temp x of
        None \<Rightarrow> AList.update x [item] temp
      | Some v \<Rightarrow> AList.update x (v @ [item]) temp)"

definition group_pass :: "('a list \<Rightarrow> 'a list) \<Rightarrow> 'a list list \<Rightarrow> 'a list list" where
  "group_pass list_set iter =
     (let temp = fold (\<lambda>item. fold (temp_add item) item) iter [];
          temp' = map (\<lambda>(k, v). (k, list_set (concat v))) temp
      in map snd temp')"

definition group_by_pair_value :: "('a list \<Rightarrow> 'a list) \<Rightarrow> 'a list list \<Rightarrow> int \<Rightarrow> 'a list list" where
  "group_by_pair_value list_set self max_loop =
     remdups_adj ((group_pass list_set ^^ nat (max max_loop 3)) self)"

text \<open>
  CPython's \<open>list(set(xs))\<close> for at most four distinct non-negative integers that differ
  modulo 8: the set is a table of eight slots, an integer is its own hash and sits in the
  slot of its value modulo 8, and the table is read in slot order.
\<close>

definition small_int_set_list :: "int list \<Rightarrow> int list" where
  "small_int_set_list xs = sort_key (\<lambda>i. i mod 8) (remdups xs)"

subsection \<open>slice_points, split_chunk\<close>

text \<open>
  \<open>ListExt.slice_points\<close> returns the slices and leaves the list object \<open>points\<close>
  changed by its \<open>append\<close>: the model returns the pair of the result and the contents
  of \<open>points\<close> after the call.
\<close>

definition slice_points :: "'a list \<Rightarrow> int list \<Rightarrow> 'a list list \<times> int list" where
  "slice_points self points =
     (let points' = points @ [int (length self)];
          data = self
      in (map (\<lambda>(i1, i2). py_slice data i1 i2) (zip ([0] @ butlast points') points'), points'))"

text \<open>
  The same call as its caller sees it, with the list objects of the program in a store
  and \<open>points\<close> the address of one of them: the call reads the object and writes it back.
\<close>

definition slice_points_ref ::
  "'a list \<Rightarrow> nat \<Rightarrow> (nat \<Rightarrow> int list) \<Rightarrow> 'a list list \<times> (nat \<Rightarrow> int list)" where
  "slice_points_ref self points store =
     (fst (slice_points self (store points)),
      store(points := snd (slice_points self (store points))))"

text \<open>\<open>ListExt.split_chunk\<close> passes a list object of its own making.\<close>

definition split_chunk :: "'a list \<Rightarrow> int \<Rightarrow> 'a list list" where
  "split_chunk self chunk_size =
     (let slice_points_arg = drop 1 (py_range 0 (int (length self)) (max chunk_size 1))
      in fst (slice_points self slice_points_arg))"

subsection \<open>wrap_to_column\<close>

text \<open>On a list of strings: \<open>len_items\<close>, \<open>max_item_len\<close>, \<open>str.ljust\<close> and \<open>wrap_to_column\<close>.\<close>

definition len_items :: "string list \<Rightarrow> int list" where
  "len_items self = map (\<lambda>x. int (length x)) self"

definition max_item_len :: "string list \<Rightarrow> error + int" where
  "max_item_len self = py_max_int (len_items self)"

definition ljust :: "string \<Rightarrow> int \<Rightarrow> string" where
  "ljust x width = x @ replicate (nat (width - int (length x))) CHR '' ''"

definition mod_item :: "int \<Rightarrow> string list \<Rightarrow> string" where
  "mod_item max_item_length item = concat (map (\<lambda>x. ljust x max_item_length) item)"

definition wrap_to_column :: "string list \<Rightarrow> int \<Rightarrow> int \<Rightarrow> error + string list" where
  "wrap_to_column self width margin =
     (case max_item_len self of Inl e \<Rightarrow> Inl e
      | Inr m \<Rightarrow>
          (let max_item_length = m + 1;
               available_width = max width 4 - max margin 2;
               column_count = (if max_item_length > 0
                               then max 1 (available_width div max_item_length) else 1)
           in Inr (map (mod_item max_item_length) (split_chunk self column_count))))"

section \<open>Reference definitions\<close>

text \<open>Chunks of \<open>k\<close> consecutive elements, the last one holding what is left.\<close>

function chunks :: "nat \<Rightarrow> 'a list \<Rightarrow> 'a list list" where
  "chunks k xs = (if k = 0 \<or> length xs \<le> k then [xs] else take k xs # chunks k (drop k xs))"
  by pat_completeness auto
termination
  by (relation "measure (\<lambda>(k, xs). length xs)") auto

text \<open>Padding a string with spaces on its left, and on its right, up to a width.\<close>

definition pad_left :: "nat \<Rightarrow> string \<Rightarrow> string" where
  "pad_left w s = replicate (w - length s) CHR '' '' @ s"

definition pad_right :: "nat \<Rightarrow> string \<Rightarrow> string" where
  "pad_right w s = s @ replicate (w - length s) CHR '' ''"

text \<open>
  The layout in the words of the specification, for a given way of padding: the column
  count, the rows of that many elements, each element padded to the longest length plus one.
\<close>

definition column_layout :: "(nat \<Rightarrow> string \<Rightarrow> string) \<Rightarrow> string list \<Rightarrow> int \<Rightarrow> int \<Rightarrow> string list" where
  "column_layout pad xs width margin =
     (let w = Max (length ` set xs) + 1;
          column_count = max 1 ((max width 4 - max margin 2) div int w)
      in map (\<lambda>row. concat (map (pad w) row)) (chunks (nat column_count) xs))"

text \<open>
  The value to be stored for a key by \<open>aggregate\<close>: the operator's result, or the list of
  the two values when it raises.
\<close>

definition aggregate_value ::
  "('k \<times> pyval) list \<Rightarrow> ('k \<times> pyval) list \<Rightarrow> pyval \<Rightarrow> (pyval \<Rightarrow> pyval \<Rightarrow> error + pyval) \<Rightarrow> 'k \<Rightarrow> pyval" where
  "aggregate_value a b d f k =
     (case f (dict_get a k d) (dict_get b k d) of
        Inr v \<Rightarrow> v
      | Inl e \<Rightarrow> PList [dict_get a k d, dict_get b k d])"

text \<open>The rank of a type: its number in the dict built by the first loop of \<open>sorts\<close>.\<close>

definition type_rank :: "('a \<Rightarrow> 't) \<Rightarrow> 'a list \<Rightarrow> 't \<Rightarrow> nat" where
  "type_rank ty zs t = (case map_of (type_weights ty zs) t of None \<Rightarrow> 0 | Some w \<Rightarrow> w)"

text \<open>
  The undirected graph of a list of items: two values are linked when one item holds both.
  Its connected components are the classes of the values under chains of links.
\<close>

definition linked :: "'a list list \<Rightarrow> ('a \<times> 'a) set" where
  "linked xs = {(u, v). \<exists>item \<in> set xs. u \<in> set item \<and> v \<in> set item}"

definition components :: "'a list list \<Rightarrow> 'a set set" where
  "components xs = (\<Union>(set ` set xs)) // (linked xs)\<^sup>+"

section \<open>DictExt.analyze\<close>

text \<open>
  C1. \<open>DictExt.analyze\<close> is to fail with \<open>ValueError\<close> whenever a value is not a number.
  On \<open>{"a": "x", "b": "y"}\<close> no comparison raises, and the method returns a result
  built from the strings.
\<close>

theorem analyze_accepts_strings:
  "analyze [(''a'', PStr ''x''), (''b'', PStr ''y'')]
   = Inr \<lparr>max_value = PStr ''y'', min_value = PStr ''x'',
          max_list = [(''b'', PStr ''y'')], min_list = [(''a'', PStr ''x'')]\<rparr>"
  by code_simp

section \<open>DictExt.aggregate\<close>

lemma aggregate_loop_fold:
  assumes "\<forall>k \<in> set ks. \<forall>e. f (dict_get a k d) (dict_get b k d) = Inl e \<longrightarrow> e = TypeError"
  shows "aggregate_loop a b d f ks merged
       = Inr (fold (\<lambda>k. AList.update k (aggregate_value a b d f k)) ks merged)"
  using assms
proof (induction ks arbitrary: merged)
  case Nil
  then show ?case by simp
next
  case (Cons k ks)
  have step: "aggregate_loop a b d f (k # ks) merged
      = aggregate_loop a b d f ks (AList.update k (aggregate_value a b d f k) merged)"
  proof (cases "f (dict_get a k d) (dict_get b k d)")
    case (Inl e)
    with Cons.prems have "e = TypeError" by simp
    with Inl show ?thesis by (simp add: Let_def aggregate_value_def)
  next
    case (Inr v)
    then show ?thesis by (simp add: Let_def aggregate_value_def)
  qed
  from Cons.prems have "\<forall>k \<in> set ks. \<forall>e. f (dict_get a k d) (dict_get b k d) = Inl e \<longrightarrow> e = TypeError"
    by simp
  from Cons.IH[OF this] step show ?case by simp
qed

lemma keys_fold_update:
  "fst ` set (fold (\<lambda>k. AList.update k (g k)) ks m) = fst ` set m \<union> set ks"
  by (induction ks arbitrary: m) (auto simp: dom_update)

lemma distinct_fold_update:
  "distinct (map fst m) \<Longrightarrow> distinct (map fst (fold (\<lambda>k. AList.update k (g k)) ks m))"
  by (induction ks arbitrary: m) (simp_all add: distinct_update)

lemma map_of_fold_update:
  "map_of (fold (\<lambda>k. AList.update k (g k)) ks m) k
   = (if k \<in> set ks then Some (g k) else map_of m k)"
  by (induction ks arbitrary: m) (simp_all add: update_conv')

text \<open>
  When the operator raises nothing but \<open>TypeError\<close> on the pairs of values it is given, \<open>a.aggregate(b, d, f)\<close> returns a dict whose keys are those of \<open>a\<close> and of \<open>b\<close>,
  and whose value at a key \<open>k\<close> is \<open>f(a.get(k, d), b.get(k, d))\<close>, or the list of the two
  values where that call raises \<open>TypeError\<close>; this holds in whatever order the keys are visited.
\<close>

lemma aggregate_keys_and_values:
  assumes "set (set_iter (map fst a @ map fst b)) = set (map fst a @ map fst b)"
    and "\<forall>k \<in> fst ` set a \<union> fst ` set b.
           \<forall>e. f (dict_get a k d) (dict_get b k d) = Inl e \<longrightarrow> e = TypeError"
  shows "\<exists>m. aggregate set_iter a b d f = Inr m
      \<and> distinct (map fst m)
      \<and> fst ` set m = fst ` set a \<union> fst ` set b
      \<and> (\<forall>k \<in> fst ` set a \<union> fst ` set b.
            map_of m k = Some (case f (dict_get a k d) (dict_get b k d) of
                                 Inr v \<Rightarrow> v
                               | Inl e \<Rightarrow> PList [dict_get a k d, dict_get b k d]))"
proof -
  let ?ks = "set_iter (map fst a @ map fst b)"
  let ?m = "fold (\<lambda>k. AList.update k (aggregate_value a b d f k)) ?ks []"
  have ks: "set ?ks = fst ` set a \<union> fst ` set b"
    using assms(1) by simp
  with assms(2)
  have "\<forall>k \<in> set ?ks. \<forall>e. f (dict_get a k d) (dict_get b k d) = Inl e \<longrightarrow> e = TypeError"
    by simp
  then have "aggregate_loop a b d f ?ks [] = Inr ?m"
    by (rule aggregate_loop_fold)
  then have 1: "aggregate set_iter a b d f = Inr ?m"
    by (simp add: aggregate_def Let_def)
  have 2: "distinct (map fst ?m)"
    by (rule distinct_fold_update) simp
  have 3: "fst ` set ?m = fst ` set a \<union> fst ` set b"
    by (simp only: keys_fold_update ks) simp
  have 4: "\<forall>k \<in> fst ` set a \<union> fst ` set b.
      map_of ?m k = Some (case f (dict_get a k d) (dict_get b k d) of
                           Inr v \<Rightarrow> v
                         | Inl e \<Rightarrow> PList [dict_get a k d, dict_get b k d])"
    by (simp only: map_of_fold_update ks) (simp add: aggregate_value_def)
  from 1 2 3 4 show ?thesis by blast
qed

lemma aggregate_keys_and_values_example:
  "\<exists>m. aggregate remdups [(''test'', PInt 5), (''test2'', PInt 9)]
          [(''test1'', PInt 10), (''test2'', PStr ''1'')] (PInt 0) py_add = Inr m
     \<and> fst ` set m = fst ` set [(''test'', PInt 5), (''test2'', PInt 9)]
                      \<union> fst ` set [(''test1'', PInt 10), (''test2'', PStr ''1'')]
     \<and> map_of m ''test'' = Some (PInt 5)
     \<and> map_of m ''test1'' = Some (PInt 10)
     \<and> map_of m ''test2'' = Some (PList [PInt 9, PStr ''1''])"
proof -
  let ?a = "[(''test'', PInt 5), (''test2'', PInt 9)]"
  let ?b = "[(''test1'', PInt 10), (''test2'', PStr ''1'')]"
  have h1: "set (remdups (map fst ?a @ map fst ?b)) = set (map fst ?a @ map fst ?b)"
    by (rule set_remdups)
  have h2: "\<forall>k \<in> fst ` set ?a \<union> fst ` set ?b.
      \<forall>e. py_add (dict_get ?a k (PInt 0)) (dict_get ?b k (PInt 0)) = Inl e \<longrightarrow> e = TypeError"
    by (simp add: dict_get_def)
  from aggregate_keys_and_values[of remdups ?a ?b py_add "PInt 0", OF h1 h2]
  obtain m where m: "aggregate remdups ?a ?b (PInt 0) py_add = Inr m"
    "fst ` set m = fst ` set ?a \<union> fst ` set ?b"
    "\<forall>k \<in> fst ` set ?a \<union> fst ` set ?b.
       map_of m k = Some (case py_add (dict_get ?a k (PInt 0)) (dict_get ?b k (PInt 0)) of
                            Inr v \<Rightarrow> v
                          | Inl e \<Rightarrow> PList [dict_get ?a k (PInt 0), dict_get ?b k (PInt 0)])"
    by (elim exE conjE) (rule that)
  from m(3) have v: "map_of m ''test'' = Some (PInt 5)"
    "map_of m ''test1'' = Some (PInt 10)"
    "map_of m ''test2'' = Some (PList [PInt 9, PStr ''1''])"
    by (simp_all add: dict_get_def)
  show ?thesis
    by (intro exI[of _ m] conjI m(1) m(2) v)
qed


text \<open>
  C3. \<open>a.aggregate(b, d, f)\<close> is to return, for any operator \<open>f\<close>, a dict over the keys of
  \<open>a\<close> and of \<open>b\<close>, a key held by one of them only keeping its value and a failing
  application giving the list of the two values. On
  \<open>{"a": 1}.aggregate({}, 0, operator.floordiv)\<close> the operator divides by the default value,
  only \<open>TypeError\<close> is caught, and the whole call fails with \<open>ZeroDivisionError\<close>.
\<close>

theorem aggregate_floordiv_raises:
  "aggregate remdups [(''a'', PInt 1)] [] (PInt 0) py_floordiv = Inl ZeroDivisionError"
  by (simp add: aggregate_def dict_get_def)

section \<open>ListExt.sorts\<close>

lemma update_absent: "map_of al k = None \<Longrightarrow> AList.update k v al = al @ [(k, v)]"
  by (induction al) (auto split: if_splits)

lemma type_weights_snoc:
  "type_weights ty (zs @ [z]) = type_weights_step ty z (type_weights ty zs)"
  by (simp add: type_weights_def)

text \<open>The dict built by the first loop: the types of the elements, numbered from 0 in order.\<close>

lemma type_weights_shape:
  "map snd (type_weights ty zs) = [0..<length (type_weights ty zs)]
   \<and> distinct (map fst (type_weights ty zs))
   \<and> fst ` set (type_weights ty zs) = ty ` set zs"
proof (induction zs rule: rev_induct)
  case Nil
  show ?case by (simp add: type_weights_def)
next
  case (snoc z zs)
  let ?tw = "type_weights ty zs"
  show ?case
  proof (cases "map_of ?tw (ty z)")
    case None
    then have new: "ty z \<notin> fst ` set ?tw"
      by (simp add: map_of_eq_None_iff)
    have e: "type_weights ty (zs @ [z]) = ?tw @ [(ty z, length ?tw)]"
      using None by (simp add: type_weights_snoc type_weights_step_def update_absent)
    show ?thesis using snoc new by (simp add: e)
  next
    case (Some w)
    then have "ty z \<in> fst ` set ?tw"
      by (meson domI domIff map_of_eq_None_iff)
    moreover have "type_weights ty (zs @ [z]) = ?tw"
      using Some by (simp add: type_weights_snoc type_weights_step_def)
    ultimately show ?thesis using snoc by auto
  qed
qed

lemma type_rank_keys:
  "map (type_rank ty zs) (map fst (type_weights ty zs)) = [0..<length (type_weights ty zs)]"
proof -
  let ?tw = "type_weights ty zs"
  have d: "distinct (map fst ?tw)" using type_weights_shape[of ty zs] by simp
  have "map (type_rank ty zs) (map fst ?tw) = map snd ?tw"
    using d by (auto simp: type_rank_def)
  then show ?thesis using type_weights_shape[of ty zs] by simp
qed

lemma sorts_key_present:
  "x \<in> set zs \<Longrightarrow> sorts_key ty str (type_weights ty zs) x = Inr (type_rank ty zs (ty x), str x)"
proof -
  assume "x \<in> set zs"
  then have "ty x \<in> fst ` set (type_weights ty zs)"
    using type_weights_shape[of ty zs] by simp
  then obtain w where "map_of (type_weights ty zs) (ty x) = Some w"
    by (metis map_of_eq_None_iff not_Some_eq)
  then show ?thesis by (simp add: sorts_key_def type_rank_def)
qed

lemma decorate_total:
  "\<forall>x \<in> set xs. key x = Inr (k x) \<Longrightarrow> decorate key xs = Inr (map (\<lambda>x. (k x, x)) xs)"
  by (induction xs) simp_all

lemma insort_key_decorated:
  "insort_key fst (k x, x) (map (\<lambda>x. (k x, x)) ys) = map (\<lambda>x. (k x, x)) (insort_key k x ys)"
  by (induction ys) simp_all

lemma sort_key_decorated:
  "sort_key fst (map (\<lambda>x. (k x, x)) xs) = map (\<lambda>x. (k x, x)) (sort_key k xs)"
  by (induction xs) (simp_all add: insort_key_decorated)

text \<open>Ascending \<open>sorts\<close> is the stable sort by the pair of the type's rank and the string form.\<close>

lemma sorts_sort_key:
  "sorts ty str xs False = Inr (sort_key (\<lambda>x. (type_rank ty xs (ty x), str x)) xs)"
proof -
  have "decorate (sorts_key ty str (type_weights ty xs)) xs
        = Inr (map (\<lambda>x. ((type_rank ty xs (ty x), str x), x)) xs)"
    by (rule decorate_total) (simp add: sorts_key_present)
  then show ?thesis
    by (simp add: sorts_def py_sorted_key_def sort_key_decorated o_def)
qed

text \<open>
  Where the elements come in the order of some ranking of their types, the types are
  numbered in that order.
\<close>

lemma type_weights_keys_sorted:
  "sorted (map (\<lambda>x. g (ty x)) zs) \<Longrightarrow> sorted (map g (map fst (type_weights ty zs)))"
proof (induction zs rule: rev_induct)
  case Nil
  show ?case by (simp add: type_weights_def)
next
  case (snoc z zs)
  let ?tw = "type_weights ty zs"
  from snoc.prems have s: "sorted (map (\<lambda>x. g (ty x)) zs)"
    and le: "\<forall>x \<in> set zs. g (ty x) \<le> g (ty z)"
    by (auto simp: sorted_append)
  show ?case
  proof (cases "map_of ?tw (ty z)")
    case None
    have e: "type_weights ty (zs @ [z]) = ?tw @ [(ty z, length ?tw)]"
      using None by (simp add: type_weights_snoc type_weights_step_def update_absent)
    have "\<forall>t \<in> fst ` set ?tw. g t \<le> g (ty z)"
      using le type_weights_shape[of ty zs] by auto
    then show ?thesis using snoc.IH[OF s] by (auto simp: e sorted_append)
  next
    case (Some w)
    then have "type_weights ty (zs @ [z]) = ?tw"
      by (simp add: type_weights_snoc type_weights_step_def)
    then show ?thesis using snoc.IH[OF s] by simp
  qed
qed

lemma type_weights_sorted_eq:
  assumes "sorted (map (\<lambda>x. type_rank ty xs (ty x)) ys)" and "set ys = set xs"
  shows "type_weights ty ys = type_weights ty xs"
proof -
  define r where "r = type_rank ty xs"
  define F where "F = map fst (type_weights ty xs)"
  define F' where "F' = map fst (type_weights ty ys)"
  have rF: "map r F = [0..<length (type_weights ty xs)]"
    unfolding r_def F_def by (rule type_rank_keys)
  have srF: "sorted (map r F)" and drF: "distinct (map r F)"
    by (simp_all only: rF sorted_upt distinct_upt)
  from drF have inj: "inj_on r (set F)"
    unfolding distinct_map by (rule conjunct2)
  have sets: "set F' = set F"
    unfolding F_def F'_def
    using type_weights_shape[of ty ys] type_weights_shape[of ty xs] assms(2) by simp
  have dF': "distinct F'"
    unfolding F'_def using type_weights_shape[of ty ys] by simp
  have srF': "sorted (map r F')"
    unfolding r_def F'_def using assms(1) by (rule type_weights_keys_sorted)
  have drF': "distinct (map r F')"
  proof -
    have "inj_on r (set F')" using inj by (simp only: sets)
    with dF' have "distinct F' \<and> inj_on r (set F')" by (rule conjI)
    then show ?thesis by (rule distinct_map[THEN iffD2])
  qed
  have "set (map r F') = set (map r F)"
    by (simp only: set_map sets)
  with srF' drF' srF drF have "map r F' = map r F"
    by (rule sorted_distinct_set_unique)
  moreover have "inj_on r (set F' \<union> set F)"
    using inj by (simp only: sets Un_absorb)
  ultimately have F: "F' = F"
    by (simp only: inj_on_map_eq_map)
  then have "length (type_weights ty ys) = length (type_weights ty xs)"
    unfolding F_def F'_def by (metis length_map)
  then have "map snd (type_weights ty ys) = map snd (type_weights ty xs)"
    using type_weights_shape[of ty ys] type_weights_shape[of ty xs] by simp
  with F show ?thesis
    unfolding F_def F'_def by (metis zip_map_fst_snd)
qed

lemma sorted_fst_of_pairs:
  fixes k :: "'a \<Rightarrow> nat \<times> string"
  shows "sorted (map k ys) \<Longrightarrow> sorted (map (\<lambda>x. fst (k x)) ys)"
proof -
  assume "sorted (map k ys)"
  then have "sorted_wrt (\<lambda>a b. k a \<le> k b) ys"
    by (simp add: sorted_map)
  then have "sorted_wrt (\<lambda>a b. fst (k a) \<le> fst (k b)) ys"
    by (rule sorted_wrt_mono_rel[rotated]) (auto simp: less_eq_prod_def)
  then show ?thesis by (simp add: sorted_map)
qed

text \<open>
  C2. \<open>x.sorts()\<close> returns, for every list \<open>x\<close>, a rearrangement of \<open>x\<close> in the order of the
  key (rank of the type in order of first encounter, string form), and sorting that
  result again returns it unchanged.
\<close>

theorem sorts_idempotent:
  "\<exists>ys. sorts ty str x False = Inr ys
      \<and> mset ys = mset x
      \<and> sorted (map (\<lambda>v. (type_rank ty x (ty v), str v)) ys)
      \<and> sorts ty str ys False = Inr ys"
proof -
  let ?k = "\<lambda>v. (type_rank ty x (ty v), str v)"
  let ?ys = "sort_key ?k x"
  have 1: "sorts ty str x False = Inr ?ys"
    by (rule sorts_sort_key)
  have 2: "mset ?ys = mset x" by simp
  have 3: "sorted (map ?k ?ys)" by (rule sorted_sort_key)
  then have "sorted (map (\<lambda>v. fst (?k v)) ?ys)"
    by (rule sorted_fst_of_pairs)
  then have "sorted (map (\<lambda>v. type_rank ty x (ty v)) ?ys)"
    by simp
  then have "type_weights ty ?ys = type_weights ty x"
    by (rule type_weights_sorted_eq) simp
  then have "type_rank ty ?ys = type_rank ty x"
    by (simp add: type_rank_def fun_eq_iff)
  then have "sorts ty str ?ys False = Inr (sort_key ?k ?ys)"
    by (simp add: sorts_sort_key)
  also have "sort_key ?k ?ys = ?ys"
    using 3 by (rule sort_key_id_if_sorted)
  finally have 4: "sorts ty str ?ys False = Inr ?ys" .
  from 1 2 3 4 show ?thesis by blast
qed

section \<open>ListExt.freq\<close>

lemma py_lt_raises_TypeError:
  "py_lt a b = Inl e \<Longrightarrow> e = TypeError"
  "py_lt_seq as bs = Inl e \<Longrightarrow> e = TypeError"
  by (induction a b and as bs rule: py_lt_py_lt_seq.induct) (simp_all split: if_splits)

lemma py_insort_outcome:
  assumes "\<And>a b e. lt a b = Inl e \<Longrightarrow> e = TypeError"
  shows "(\<forall>r. py_insort lt x ys = Inr r \<longrightarrow> mset r = add_mset x (mset ys))
       \<and> (\<forall>e. py_insort lt x ys = Inl e \<longrightarrow> e = TypeError)"
proof (induction ys)
  case Nil
  show ?case by simp
next
  case (Cons y ys)
  show ?case
  proof (cases "lt x y")
    case (Inl e)
    then show ?thesis using assms by auto
  next
    case (Inr b)
    then show ?thesis using Cons by (cases "py_insort lt x ys") auto
  qed
qed

lemma py_sorted_from_outcome:
  assumes "\<And>a b e. lt a b = Inl e \<Longrightarrow> e = TypeError"
  shows "(\<forall>r. py_sorted_from lt acc xs = Inr r \<longrightarrow> mset r = mset acc + mset xs)
       \<and> (\<forall>e. py_sorted_from lt acc xs = Inl e \<longrightarrow> e = TypeError)"
proof (induction xs arbitrary: acc)
  case Nil
  show ?case by simp
next
  case (Cons x xs)
  show ?case
  proof (cases "py_insort lt x acc")
    case (Inl e)
    then show ?thesis using py_insort_outcome[OF assms, where x = x and ys = acc] by simp
  next
    case (Inr acc')
    then have "mset acc' = add_mset x (mset acc)"
      using py_insort_outcome[OF assms, where x = x and ys = acc] by simp
    then show ?thesis using Cons[of acc'] Inr by simp
  qed
qed

lemma py_sorted_outcome:
  assumes "\<And>a b e. lt a b = Inl e \<Longrightarrow> e = TypeError"
  shows "py_sorted lt xs = Inr r \<Longrightarrow> mset r = mset xs"
    and "py_sorted lt xs = Inl e \<Longrightarrow> e = TypeError"
  using py_sorted_from_outcome[OF assms, where acc = "[]" and xs = xs] by (simp_all add: py_sorted_def)

lemma fold_update_distinct:
  "distinct (map fst acc) \<Longrightarrow> distinct (map fst (fold (\<lambda>(k, v). AList.update k v) items acc))"
  by (induction items arbitrary: acc) (auto simp: distinct_update)

lemma fold_update_map_of:
  "distinct (map fst items) \<Longrightarrow>
   map_of (fold (\<lambda>(k, v). AList.update k v) items acc) = map_of acc ++ map_of items"
proof (induction items arbitrary: acc)
  case Nil
  show ?case by simp
next
  case (Cons kv items)
  obtain k v where kv: "kv = (k, v)" by (cases kv)
  from Cons.prems kv have k: "k \<notin> dom (map_of items)" and d: "distinct (map fst items)"
    by (auto simp: dom_map_of_conv_image_fst)
  have "fold (\<lambda>(k, v). AList.update k v) (kv # items) acc
        = fold (\<lambda>(k, v). AList.update k v) items (AList.update k v acc)"
    by (simp add: kv)
  then have "map_of (fold (\<lambda>(k, v). AList.update k v) (kv # items) acc)
        = map_of (AList.update k v acc) ++ map_of items"
    by (simp only: Cons.IH[OF d])
  also have "\<dots> = (map_of acc)(k \<mapsto> v) ++ map_of items"
    by (simp only: update_conv')
  also have "\<dots> = (map_of acc ++ map_of items)(k \<mapsto> v)"
    using k by (rule map_add_upd_left)
  also have "\<dots> = map_of acc ++ map_of (kv # items)"
    by (simp add: kv)
  finally show ?case .
qed

text \<open>\<open>dict(items)\<close> of items with distinct keys holds the same entries.\<close>

lemma py_dict_of_distinct:
  "distinct (map fst items) \<Longrightarrow>
   distinct (map fst (py_dict items)) \<and> map_of (py_dict items) = map_of items"
  by (simp add: py_dict_def fold_update_distinct fold_update_map_of)

lemma permuted_items:
  assumes "mset items = mset temp" and "distinct (map fst temp)"
  shows "distinct (map fst items) \<and> map_of items = map_of temp"
proof -
  have "mset (map fst items) = mset (map fst temp)"
    using assms(1) by (metis mset_map)
  then have d: "distinct (map fst items)"
    using assms(2) by (metis mset_eq_imp_distinct_iff)
  moreover have "set items = set temp"
    using assms(1) by (rule mset_eq_setD)
  ultimately show ?thesis
    using assms(2) by (simp add: map_of_inject_set)
qed

text \<open>Ordering the items never fails and keeps the entries.\<close>

lemma freq_times_appear_entries:
  assumes "distinct (map fst temp)"
  shows "\<exists>d. freq_times_appear str temp = Inr d \<and> distinct (map fst d) \<and> map_of d = map_of temp"
proof (cases "py_sorted (\<lambda>a b. py_lt (item_tuple a) (item_tuple b)) temp")
  case (Inr items)
  then have "mset items = mset temp"
    by (rule py_sorted_outcome(1)[rotated]) (rule py_lt_raises_TypeError(1))
  then have "distinct (map fst items) \<and> map_of items = map_of temp"
    using assms by (rule permuted_items)
  then have "distinct (map fst (py_dict items)) \<and> map_of (py_dict items) = map_of temp"
    using py_dict_of_distinct[of items] by simp
  then show ?thesis using Inr by (simp add: freq_times_appear_def)
next
  case (Inl e)
  then have e: "e = TypeError"
    by (rule py_sorted_outcome(2)[rotated]) (rule py_lt_raises_TypeError(1))
  let ?items = "sort_key (\<lambda>kv. (type_rank (\<lambda>kv. py_type (item_tuple kv)) temp (py_type (item_tuple kv)),
                             str (item_tuple kv))) temp"
  have s: "sorts (\<lambda>kv. py_type (item_tuple kv)) (\<lambda>kv. str (item_tuple kv)) temp False = Inr ?items"
    by (rule sorts_sort_key)
  have "mset ?items = mset temp" by simp
  then have "distinct (map fst ?items) \<and> map_of ?items = map_of temp"
    using assms by (rule permuted_items)
  then have "distinct (map fst (py_dict ?items)) \<and> map_of (py_dict ?items) = map_of temp"
    using py_dict_of_distinct[of ?items] by simp
  then show ?thesis using Inl e s by (simp add: freq_times_appear_def)
qed

text \<open>The counts held by a \<open>Counter\<close>.\<close>

lemma fold_counter_add_distinct:
  "distinct (map fst acc) \<Longrightarrow> distinct (map fst (fold counter_add ts acc))"
  by (induction ts arbitrary: acc) (simp_all add: counter_add_def distinct_update)

lemma counter_add_map_of:
  "map_of (counter_add t acc) k = (if k = t then Some (dict_get acc t 0 + 1) else map_of acc k)"
  by (simp add: counter_add_def update_conv')

lemma counter_add_dict_get:
  "dict_get (counter_add t acc) k 0 = (if k = t then dict_get acc t 0 + 1 else dict_get acc k 0)"
  by (simp add: dict_get_def counter_add_map_of)

lemma fold_counter_add_map_of:
  "map_of (fold counter_add ts acc) k
   = (if count_list ts k = 0 then map_of acc k
      else Some (dict_get acc k 0 + int (count_list ts k)))"
proof (induction ts arbitrary: acc)
  case Nil
  show ?case by simp
next
  case (Cons t ts)
  have "map_of (fold counter_add (t # ts) acc) k
      = (if count_list ts k = 0 then map_of (counter_add t acc) k
         else Some (dict_get (counter_add t acc) k 0 + int (count_list ts k)))"
    using Cons.IH[of "counter_add t acc"] by simp
  also have "\<dots> = (if count_list (t # ts) k = 0 then map_of acc k
         else Some (dict_get acc k 0 + int (count_list (t # ts) k)))"
    unfolding counter_add_map_of counter_add_dict_get by (cases "k = t") simp_all
  finally show ?case .
qed

lemma Counter_counts:
  assumes "list_all hashable ts"
  shows "\<exists>temp. Counter ts = Inr temp \<and> distinct (map fst temp)
      \<and> (\<forall>k. map_of temp k = (if count_list ts k = 0 then None else Some (int (count_list ts k))))"
proof -
  have "distinct (map fst (fold counter_add ts []))"
    by (rule fold_counter_add_distinct) simp
  moreover have "\<forall>k. map_of (fold counter_add ts []) k
      = (if count_list ts k = 0 then None else Some (int (count_list ts k)))"
    by (simp add: fold_counter_add_map_of dict_get_def)
  ultimately show ?thesis using assms by (simp add: Counter_def)
qed

text \<open>The list counted: a rearrangement of the list, the list itself without \<open>sort\<close>.\<close>

lemma freq_data_rearranges:
  "\<exists>data. freq_data str xs do_sort = Inr data \<and> mset data = mset xs"
  by (cases do_sort) (simp_all add: freq_data_def sorts_sort_key)

lemma py_min_int_Min: "ns \<noteq> [] \<Longrightarrow> py_min_int ns = Inr (Min (set ns))"
proof (cases ns)
  case Nil
  assume "ns \<noteq> []"
  with Nil show ?thesis by simp
next
  case (Cons n rest)
  have "fold min rest n = Min (set (n # rest))"
    by (rule Min.set_eq_fold[symmetric])
  with Cons show ?thesis by (simp add: py_min_int_def)
qed

lemma py_slice_prefix: "0 \<le> c \<Longrightarrow> py_slice s 0 c = take (nat c) s"
  by (simp add: py_slice_def slice_bound_def Let_def min_def)

lemma count_list_rearranged: "mset ys = mset xs \<Longrightarrow> count_list (map f ys) k = count_list (map f xs) k"
  by (metis count_mset mset_map)

lemma count_list_of_rearranged: "mset ys = mset xs \<Longrightarrow> count_list ys k = count_list xs k"
  by (metis count_mset)

text \<open>
  C7, as amended. For every non-empty list, with \<open>m\<close> the least length of the string forms
  of its elements: when \<open>1 \<le> c < m\<close>, \<open>freq(num_of_first_char=c)\<close> returns the dict that maps
  each string that is the first \<open>c\<close> characters of some element's string form to the number
  of elements it is cut from, and nothing else. For every other \<open>c\<close> the parameter is
  ignored: when every element is hashable the call returns the dict that maps each element
  to the number of its occurrences, and nothing else; with an element that is not hashable
  it raises \<open>TypeError\<close>; either way it does what it does with \<open>num_of_first_char=None\<close>.
\<close>

theorem freq_num_of_first_char:
  assumes "xs \<noteq> []"
  shows
    "let m = Min ((\<lambda>x. int (length (str x))) ` set xs);
         cut = (\<lambda>x. PStr (take (nat c) (str x)))
     in (1 \<le> c \<and> c < m \<longrightarrow>
           (\<exists>d. freq str xs do_sort (Some c) False = Inr (FreqDict d)
              \<and> distinct (map fst d)
              \<and> (\<forall>k. map_of d k =
                     (if count_list (map cut xs) k = 0 then None
                      else Some (int (count_list (map cut xs) k))))))
      \<and> (\<not> (1 \<le> c \<and> c < m) \<and> list_all hashable xs \<longrightarrow>
           (\<exists>d. freq str xs do_sort (Some c) False = Inr (FreqDict d)
              \<and> distinct (map fst d)
              \<and> (\<forall>k. map_of d k =
                     (if count_list xs k = 0 then None
                      else Some (int (count_list xs k))))))
      \<and> (\<not> (1 \<le> c \<and> c < m) \<and> \<not> list_all hashable xs \<longrightarrow>
           freq str xs do_sort (Some c) appear_increment = Inl TypeError)
      \<and> (\<not> (1 \<le> c \<and> c < m) \<longrightarrow>
           freq str xs do_sort (Some c) appear_increment
           = freq str xs do_sort None appear_increment)"
proof -
  define m where "m = Min ((\<lambda>x. int (length (str x))) ` set xs)"
  define cut where "cut = (\<lambda>x. PStr (take (nat c) (str x)))"
  obtain data where data: "freq_data str xs do_sort = Inr data" "mset data = mset xs"
    using freq_data_rearranges by blast
  from data(2) have sd: "set data = set xs" by (rule mset_eq_setD)
  with assms have "data \<noteq> []" by auto
  then have "py_min_int (map (\<lambda>x. int (length (str x))) data)
      = Inr (Min (set (map (\<lambda>x. int (length (str x))) data)))"
    by (intro py_min_int_Min) simp
  then have mn: "py_min_int (map (\<lambda>x. int (length (str x))) data) = Inr m"
    by (simp add: m_def sd)
  have hd: "list_all hashable data = list_all hashable xs"
    by (simp add: list_all_iff sd)
  have counted: "\<exists>d. freq str xs do_sort (Some c) False = Inr (FreqDict d)
        \<and> distinct (map fst d)
        \<and> (\<forall>k. map_of d k =
               (if count_list ts k = 0 then None else Some (int (count_list ts k))))"
    if t: "freq_temp str data (Some c) = Counter ts'" and h: "list_all hashable ts'"
      and cnt: "\<And>k. count_list ts' k = count_list ts k"
    for ts ts' :: "pyval list"
  proof -
    from Counter_counts[OF h]
    obtain temp where temp: "Counter ts' = Inr temp" "distinct (map fst temp)"
      "\<forall>k. map_of temp k = (if count_list ts' k = 0 then None
                            else Some (int (count_list ts' k)))"
      by blast
    from freq_times_appear_entries[OF temp(2), of str]
    obtain d where d: "freq_times_appear str temp = Inr d" "distinct (map fst d)"
      "map_of d = map_of temp"
      by blast
    have "freq str xs do_sort (Some c) False = Inr (FreqDict d)"
      by (simp add: freq_def data(1) t temp(1) d(1))
    moreover have "\<forall>k. map_of d k =
               (if count_list ts k = 0 then None else Some (int (count_list ts k)))"
      using temp(3) by (simp add: d(3) cnt)
    ultimately show ?thesis using d(2) by blast
  qed
  have a: "\<exists>d. freq str xs do_sort (Some c) False = Inr (FreqDict d)
        \<and> distinct (map fst d)
        \<and> (\<forall>k. map_of d k =
               (if count_list (map cut xs) k = 0 then None
                else Some (int (count_list (map cut xs) k))))"
    if c: "1 \<le> c \<and> c < m"
  proof -
    have cuts: "map (\<lambda>x. PStr (py_slice (str x) 0 c)) data = map cut data"
      using c by (simp add: cut_def py_slice_prefix)
    have t: "freq_temp str data (Some c) = Counter (map cut data)"
      using c by (simp add: freq_temp_def mn cuts)
    have h: "list_all hashable (map cut data)"
      by (simp add: list_all_iff cut_def)
    show ?thesis
      using t h count_list_rearranged[OF data(2)] by (rule counted)
  qed
  have ignored: "freq_temp str data (Some c) = Counter data" if "\<not> (1 \<le> c \<and> c < m)"
    using that by (simp add: freq_temp_def mn)
  have b: "\<exists>d. freq str xs do_sort (Some c) False = Inr (FreqDict d)
        \<and> distinct (map fst d)
        \<and> (\<forall>k. map_of d k =
               (if count_list xs k = 0 then None else Some (int (count_list xs k))))"
    if "\<not> (1 \<le> c \<and> c < m)" and "list_all hashable xs"
  proof -
    have h: "list_all hashable data" using that(2) by (simp only: hd)
    show ?thesis
      using ignored[OF that(1)] h count_list_of_rearranged[OF data(2)] by (rule counted)
  qed
  have r: "freq str xs do_sort (Some c) appear_increment = Inl TypeError"
    if "\<not> (1 \<le> c \<and> c < m)" and "\<not> list_all hashable xs"
  proof -
    have "Counter data = Inl TypeError"
      using that(2) by (simp add: Counter_def hd)
    then show ?thesis
      by (simp add: freq_def data(1) ignored[OF that(1)])
  qed
  have n: "freq str xs do_sort (Some c) appear_increment = freq str xs do_sort None appear_increment"
    if "\<not> (1 \<le> c \<and> c < m)"
  proof -
    have "freq_temp str data (Some c) = freq_temp str data None"
      using ignored[OF that] by (simp add: freq_temp_def)
    then show ?thesis by (simp add: freq_def data(1))
  qed
  from a b r n show ?thesis
    unfolding Let_def m_def cut_def by blast
qed

theorem freq_num_of_first_char_witness:
  "[PStr ''apple'', PStr ''avocado'', PStr ''banana'', PStr ''apple''] \<noteq> []
   \<and> list_all hashable [PStr ''apple'', PStr ''avocado'', PStr ''banana'', PStr ''apple'']
   \<and> Min ((\<lambda>x. int (length (py_str x)))
            ` set [PStr ''apple'', PStr ''avocado'', PStr ''banana'', PStr ''apple'']) = 5
   \<and> (\<exists>d. freq py_str [PStr ''apple'', PStr ''avocado'', PStr ''banana'', PStr ''apple'']
               False (Some 1) False = Inr (FreqDict d)
          \<and> map_of d (PStr ''a'') = Some 3 \<and> map_of d (PStr ''b'') = Some 1
          \<and> map_of d (PStr ''apple'') = None)
   \<and> (\<exists>d. freq py_str [PStr ''apple'', PStr ''avocado'', PStr ''banana'', PStr ''apple'']
               False (Some 5) False = Inr (FreqDict d)
          \<and> map_of d (PStr ''apple'') = Some 2 \<and> map_of d (PStr ''banana'') = Some 1
          \<and> map_of d (PStr ''a'') = None)
   \<and> freq py_str [PStr ''apple'', PStr ''avocado'', PStr ''banana'', PStr ''apple''] False (Some 5) False
     = freq py_str [PStr ''apple'', PStr ''avocado'', PStr ''banana'', PStr ''apple''] False None False"
proof -
  let ?xs = "[PStr ''apple'', PStr ''avocado'', PStr ''banana'', PStr ''apple'']"
  let ?m = "Min ((\<lambda>x. int (length (py_str x))) ` set ?xs)"
  let ?cut = "\<lambda>x. PStr (take (nat 1) (py_str x))"
  have n: "?xs \<noteq> []" by simp
  have h: "list_all hashable ?xs" by simp
  have m: "?m = 5" by (simp add: py_str_def)
  have in_range: "1 \<le> (1::int) \<and> 1 < ?m" by (simp only: m) simp
  have out_of_range: "\<not> (1 \<le> (5::int) \<and> 5 < ?m)" by (simp only: m) simp
  note t1 = freq_num_of_first_char[OF n, of py_str 1 False False, unfolded Let_def]
  note t5 = freq_num_of_first_char[OF n, of py_str 5 False False, unfolded Let_def]
  from t1 in_range obtain d1 where d1: "freq py_str ?xs False (Some 1) False = Inr (FreqDict d1)"
    "\<forall>k. map_of d1 k = (if count_list (map ?cut ?xs) k = 0 then None
                         else Some (int (count_list (map ?cut ?xs) k)))"
    by blast
  have c1: "map_of d1 (PStr ''a'') = Some 3" "map_of d1 (PStr ''b'') = Some 1"
    "map_of d1 (PStr ''apple'') = None"
    by (simp_all add: d1(2) py_str_def)
  from t5 out_of_range h obtain d5 where d5: "freq py_str ?xs False (Some 5) False = Inr (FreqDict d5)"
    "\<forall>k. map_of d5 k = (if count_list ?xs k = 0 then None else Some (int (count_list ?xs k)))"
    by blast
  have c5: "map_of d5 (PStr ''apple'') = Some 2" "map_of d5 (PStr ''banana'') = Some 1"
    "map_of d5 (PStr ''a'') = None"
    by (simp_all add: d5(2))
  from t5 out_of_range
  have e: "freq py_str ?xs False (Some 5) False = freq py_str ?xs False None False"
    by blast
  from d1(1) c1 have p1: "\<exists>d. freq py_str ?xs False (Some 1) False = Inr (FreqDict d)
      \<and> map_of d (PStr ''a'') = Some 3 \<and> map_of d (PStr ''b'') = Some 1
      \<and> map_of d (PStr ''apple'') = None"
    by blast
  from d5(1) c5 have p5: "\<exists>d. freq py_str ?xs False (Some 5) False = Inr (FreqDict d)
      \<and> map_of d (PStr ''apple'') = Some 2 \<and> map_of d (PStr ''banana'') = Some 1
      \<and> map_of d (PStr ''a'') = None"
    by blast
  from n h m p1 p5 e show ?thesis by (intro conjI)
qed

text \<open>
  With elements that are not hashable and \<open>c\<close> out of range nothing is counted:
  \<open>ListExt([[1], [2]]).freq(num_of_first_char=0)\<close> raises the \<open>TypeError\<close> of \<open>Counter\<close>.
\<close>

theorem freq_unhashable_counterexample:
  "freq py_str [PList [PInt 1], PList [PInt 2]] False (Some 0) False = Inl TypeError"
  by code_simp

lemma sorts_Nil: "sorts ty str [] reverse = Inr []"
  by (simp add: sorts_def py_sorted_key_def)

text \<open>
  C10. On the empty list, \<open>freq(num_of_first_char=c)\<close> raises the \<open>ValueError\<close> of \<open>min\<close> on an
  empty sequence for every integer \<open>c\<close>, whatever the other arguments; with
  \<open>num_of_first_char\<close> left as \<open>None\<close> it returns the empty dict.
\<close>

theorem freq_empty_list:
  "freq str [] do_sort (Some c) appear_increment = Inl ValueError
   \<and> freq str [] do_sort None False = Inr (FreqDict [])"
  by (simp add: freq_def freq_data_def freq_temp_def freq_times_appear_def sorts_Nil
      py_min_int_def Counter_def py_sorted_def py_dict_def)

section \<open>ListExt.flatten\<close>

declare flatten_loop.simps [simp del]





section \<open>ListExt.group_by_pair_value\<close>

lemma group_pass_example_3:
  "(group_pass small_int_set_list ^^ 3) [[1, 2], [2, 3], [4, 3], [5, 6]]
   = [[1, 2, 3, 4], [1, 2, 3, 4], [1, 2, 3, 4], [1, 2, 3, 4], [5, 6], [5, 6]]"
  by code_simp

lemma group_pass_example_fixed:
  "group_pass small_int_set_list [[1, 2, 3, 4], [1, 2, 3, 4], [1, 2, 3, 4], [1, 2, 3, 4], [5, 6], [5, 6]]
   = [[1, 2, 3, 4], [1, 2, 3, 4], [1, 2, 3, 4], [1, 2, 3, 4], [5, 6], [5, 6]]"
  by code_simp

lemma group_pass_example_2:
  "remdups_adj ((group_pass small_int_set_list ^^ 2) [[1, 2], [2, 3], [4, 3], [5, 6]])
   = [[1, 2, 3], [1, 2, 3, 4], [2, 3, 4], [5, 6]]"
  by code_simp

lemma funpow_fixed: "f x = x \<Longrightarrow> (f ^^ n) x = x"
  by (induction n) simp_all

lemma linked_example:
  "(u, v) \<in> linked [[1, 2], [2, 3], [4, 3], [5, 6 :: int]] \<longleftrightarrow>
     (u \<in> {1, 2} \<and> v \<in> {1, 2}) \<or> (u \<in> {2, 3} \<and> v \<in> {2, 3})
     \<or> (u \<in> {4, 3} \<and> v \<in> {4, 3}) \<or> (u \<in> {5, 6} \<and> v \<in> {5, 6})"
  by (simp add: linked_def)

lemma linked_example_closed:
  "(u, v) \<in> (linked [[1, 2], [2, 3], [4, 3], [5, 6 :: int]])\<^sup>+ \<Longrightarrow>
   (u \<in> {1, 2, 3, 4} \<and> v \<in> {1, 2, 3, 4}) \<or> (u \<in> {5, 6} \<and> v \<in> {5, 6})"
proof (induction rule: trancl_induct)
  case (base v)
  then show ?case unfolding linked_example by auto
next
  case (step v w)
  from step.hyps(2) have "(v \<in> {1, 2, 3, 4} \<and> w \<in> {1, 2, 3, 4}) \<or> (v \<in> {5, 6} \<and> w \<in> {5, 6})"
    unfolding linked_example by auto
  with step.IH show ?case by auto
qed

lemma linked_example_hub:
  assumes "u \<in> {1, 2, 3, 4 :: int}"
  shows "(u, 3) \<in> (linked [[1, 2], [2, 3], [4, 3], [5, 6]])\<^sup>+"
    and "(3, u) \<in> (linked [[1, 2], [2, 3], [4, 3], [5, 6]])\<^sup>+"
proof -
  let ?L = "linked [[1, 2], [2, 3], [4, 3], [5, 6 :: int]]"
  have e: "(1, 2) \<in> ?L" "(2, 1) \<in> ?L" "(2, 3) \<in> ?L" "(3, 2) \<in> ?L" "(4, 3) \<in> ?L"
    "(3, 4) \<in> ?L" "(3, 3) \<in> ?L"
    unfolding linked_example by simp_all
  have "(1, 3) \<in> ?L\<^sup>+" using e(1) e(3) by (rule trancl_into_trancl[OF r_into_trancl])
  moreover have "(3, 1) \<in> ?L\<^sup>+" using e(4) e(2) by (rule trancl_into_trancl[OF r_into_trancl])
  ultimately show "(u, 3) \<in> ?L\<^sup>+" and "(3, u) \<in> ?L\<^sup>+"
    using assms e r_into_trancl[of _ _ ?L] by auto
qed

lemma linked_example_classes:
  "(linked [[1, 2], [2, 3], [4, 3], [5, 6 :: int]])\<^sup>+ `` {u}
   = (if u \<in> {1, 2, 3, 4} then {1, 2, 3, 4} else if u \<in> {5, 6} then {5, 6} else {})"
proof -
  let ?L = "linked [[1, 2], [2, 3], [4, 3], [5, 6 :: int]]"
  have in1: "(u, v) \<in> ?L\<^sup>+" if "u \<in> {1, 2, 3, 4}" "v \<in> {1, 2, 3, 4}" for v :: int
    using linked_example_hub(1)[OF that(1)] linked_example_hub(2)[OF that(2)]
    by (rule trancl_trans)
  have in2: "(u, v) \<in> ?L\<^sup>+" if "u \<in> {5, 6}" "v \<in> {5, 6}" for v :: int
  proof -
    have "(u, v) \<in> ?L" using that unfolding linked_example by simp
    then show ?thesis by (rule r_into_trancl)
  qed
  show ?thesis
  proof (intro set_eqI iffI)
    fix v :: int
    assume "v \<in> ?L\<^sup>+ `` {u}"
    then have "(u, v) \<in> ?L\<^sup>+" by simp
    from linked_example_closed[OF this]
    show "v \<in> (if u \<in> {1, 2, 3, 4} then {1, 2, 3, 4} else if u \<in> {5, 6} then {5, 6} else {})"
      by auto
  next
    fix v :: int
    assume v: "v \<in> (if u \<in> {1, 2, 3, 4} then {1, 2, 3, 4} else if u \<in> {5, 6} then {5, 6} else {})"
    have "(u, v) \<in> ?L\<^sup>+"
    proof (cases "u \<in> {1, 2, 3, 4}")
      case True
      with v have "v \<in> {1, 2, 3, 4}" by simp
      with True show ?thesis by (rule in1)
    next
      case False
      with v have "u \<in> {5, 6}" "v \<in> {5, 6}" by (auto split: if_splits)
      then show ?thesis by (rule in2)
    qed
    then show "v \<in> ?L\<^sup>+ `` {u}" by simp
  qed
qed

lemma components_example:
  "components [[1, 2], [2, 3], [4, 3], [5, 6 :: int]] = {{1, 2, 3, 4}, {5, 6}}"
proof -
  have v: "\<Union>(set ` set [[1, 2], [2, 3], [4, 3], [5, 6 :: int]]) = {1, 2, 3, 4, 5, 6}"
    by auto
  show ?thesis
    unfolding components_def v quotient_def
    by (simp add: linked_example_classes) (rule insert_commute)
qed

text \<open>
  C5. On \<open>[[1, 2], [2, 3], [4, 3], [5, 6]]\<close> the method returns \<open>[[1, 2, 3, 4], [5, 6]]\<close>, with
  the default \<open>max_loop\<close> and with any other, and the two groups are the connected components
  of the graph of the pairs; a \<open>max_loop\<close> below 3 runs three passes (for every input), and
  two passes would not have been enough on this input.
\<close>

theorem group_by_pair_value_example:
  "group_by_pair_value small_int_set_list [[1, 2], [2, 3], [4, 3], [5, 6]] max_loop
     = [[1, 2, 3, 4], [5, 6]]
   \<and> set ` set (group_by_pair_value small_int_set_list [[1, 2], [2, 3], [4, 3], [5, 6]] max_loop)
     = components [[1, 2], [2, 3], [4, 3], [5, 6]]
   \<and> group_by_pair_value list_set xs (min max_loop 3) = remdups_adj ((group_pass list_set ^^ 3) xs)
   \<and> remdups_adj ((group_pass small_int_set_list ^^ 2) [[1, 2], [2, 3], [4, 3], [5, 6]])
     \<noteq> [[1, 2, 3, 4], [5, 6]]"
proof -
  let ?ex = "[[1, 2], [2, 3], [4, 3], [5, 6 :: int]]"
  let ?fix = "[[1, 2, 3, 4], [1, 2, 3, 4], [1, 2, 3, 4], [1, 2, 3, 4], [5, 6], [5, 6 :: int]]"
  obtain n where n: "nat (max max_loop 3) = n + 3"
    by (metis add.commute le_Suc_ex max.cobounded2 nat_mono nat_numeral)
  have "(group_pass small_int_set_list ^^ (n + 3)) ?ex
        = (group_pass small_int_set_list ^^ n) ((group_pass small_int_set_list ^^ 3) ?ex)"
    by (simp only: funpow_add o_apply)
  also have "\<dots> = ?fix"
    using funpow_fixed[of "group_pass small_int_set_list" ?fix n, OF group_pass_example_fixed]
    by (simp only: group_pass_example_3)
  finally have 1: "group_by_pair_value small_int_set_list ?ex max_loop = [[1, 2, 3, 4], [5, 6]]"
    by (simp add: group_by_pair_value_def n)
  have "nat (max (min max_loop 3) 3) = 3" by simp
  then have 2: "group_by_pair_value list_set xs (min max_loop 3)
      = remdups_adj ((group_pass list_set ^^ 3) xs)"
    by (simp only: group_by_pair_value_def)
  have 3: "remdups_adj ((group_pass small_int_set_list ^^ 2) ?ex) \<noteq> [[1, 2, 3, 4], [5, 6]]"
    by (simp only: group_pass_example_2) simp
  have 4: "set ` set (group_by_pair_value small_int_set_list ?ex max_loop) = components ?ex"
    by (simp only: 1 components_example) simp
  from 1 4 2 3 show ?thesis by blast
qed

section \<open>Chunks and slices\<close>

declare chunks.simps [simp del]
declare py_range.simps [simp del]

lemma py_slice_whole_tail:
  "0 \<le> a \<Longrightarrow> py_slice s a (int (length s)) = drop (nat a) s"
  by (auto simp: py_slice_def slice_bound_def Let_def min_def)

lemma py_slice_inner:
  "0 \<le> a \<Longrightarrow> 0 \<le> k \<Longrightarrow> a + k \<le> int (length s) \<Longrightarrow>
   py_slice s a (a + k) = take (nat k) (drop (nat a) s)"
  by (simp add: py_slice_def slice_bound_def Let_def nat_add_distrib min_def)

lemma slices_from:
  assumes k: "0 < k"
  shows "0 \<le> a \<Longrightarrow>
    map (\<lambda>(i1, i2). py_slice s i1 i2)
      (zip (a # py_range (a + k) (int (length s)) k) (py_range (a + k) (int (length s)) k @ [int (length s)]))
    = chunks (nat k) (drop (nat a) s)"
proof (induction "nat (int (length s) - a)" arbitrary: a rule: less_induct)
  case less
  show ?case
  proof (cases "a + k < int (length s)")
    case True
    have r: "py_range (a + k) (int (length s)) k = (a + k) # py_range (a + k + k) (int (length s)) k"
      using True k by (subst py_range.simps) simp
    have ih: "map (\<lambda>(i1, i2). py_slice s i1 i2)
      (zip ((a + k) # py_range (a + k + k) (int (length s)) k) (py_range (a + k + k) (int (length s)) k @ [int (length s)]))
      = chunks (nat k) (drop (nat (a + k)) s)"
      using less.hyps[of "a + k"] less.prems True k by simp
    have c: "chunks (nat k) (drop (nat a) s) = take (nat k) (drop (nat a) s) # chunks (nat k) (drop (nat (a + k)) s)"
    proof -
      have "\<not> (nat k = 0 \<or> length (drop (nat a) s) \<le> nat k)"
        using True k less.prems by auto
      then show ?thesis
        using k less.prems
        by (simp add: chunks.simps[of "nat k" "drop (nat a) s"] nat_add_distrib add.commute)
    qed
    show ?thesis
      using ih True less.prems k by (simp add: r c py_slice_inner)
  next
    case False
    have r: "py_range (a + k) (int (length s)) k = []"
      using False by (subst py_range.simps) simp
    have c: "chunks (nat k) (drop (nat a) s) = [drop (nat a) s]"
    proof -
      have "length (drop (nat a) s) \<le> nat k"
        using False k less.prems by auto
      then show ?thesis
        by (simp add: chunks.simps[of "nat k" "drop (nat a) s"])
    qed
    show ?thesis using less.prems by (simp add: r c py_slice_whole_tail)
  qed
qed

lemma split_chunk_eq_chunks: "split_chunk s k = chunks (nat (max k 1)) s"
proof -
  let ?k = "max k 1"
  let ?n = "int (length s)"
  have k: "0 < ?k" by simp
  have d: "drop 1 (py_range 0 ?n ?k) = py_range (0 + ?k) ?n ?k"
  proof (cases "s = []")
    case True
    then show ?thesis by (simp add: py_range.simps[of 0] py_range.simps[of "max k 1"])
  next
    case False
    then show ?thesis using k by (simp add: py_range.simps[of 0] del: max.bounded_iff)
  qed
  have "fst (slice_points s (drop 1 (py_range 0 ?n ?k)))
        = map (\<lambda>(i1, i2). py_slice s i1 i2)
            (zip (0 # py_range (0 + ?k) ?n ?k) (py_range (0 + ?k) ?n ?k @ [?n]))"
    unfolding slice_points_def Let_def d by (simp add: butlast_append)
  then show ?thesis
    using slices_from[OF k, of 0 s] by (simp add: split_chunk_def Let_def)
qed

lemma concat_chunks: "concat (chunks k xs) = xs"
  by (induction k xs rule: chunks.induct) (subst chunks.simps, simp)

lemma chunks_not_Nil: "chunks k xs \<noteq> []"
  by (subst chunks.simps) simp

lemma butlast_chunks_length: "c \<in> set (butlast (chunks k xs)) \<Longrightarrow> length c = k"
proof (induction k xs rule: chunks.induct)
  case (1 k xs)
  show ?case
  proof (cases "k = 0 \<or> length xs \<le> k")
    case True
    then have "chunks k xs = [xs]" by (subst chunks.simps) simp
    with "1.prems" show ?thesis by simp
  next
    case False
    then have e: "chunks k xs = take k xs # chunks k (drop k xs)" by (subst chunks.simps) simp
    with "1.prems" have "c = take k xs \<or> c \<in> set (butlast (chunks k (drop k xs)))"
      by (simp add: chunks_not_Nil)
    then show ?thesis using "1.IH" False by auto
  qed
qed

lemma last_chunks_length: "0 < k \<Longrightarrow> length (last (chunks k xs)) \<le> k"
proof (induction k xs rule: chunks.induct)
  case (1 k xs)
  show ?case
  proof (cases "k = 0 \<or> length xs \<le> k")
    case True
    then have "chunks k xs = [xs]" by (subst chunks.simps) simp
    with True "1.prems" show ?thesis by simp
  next
    case False
    then have e: "chunks k xs = take k xs # chunks k (drop k xs)" by (subst chunks.simps) simp
    show ?thesis using "1.IH" False "1.prems" by (simp add: e chunks_not_Nil)
  qed
qed

text \<open>
  C8. For every list \<open>s\<close> and every integer \<open>chunk_size\<close>, the chunks of
  \<open>s.split_chunk(chunk_size)\<close> concatenated in order give \<open>s\<close>; every chunk but the last
  has exactly \<open>max(chunk_size, 1)\<close> elements, and the last one has at most that many.
\<close>

theorem split_chunk_reconstructs:
  "concat (split_chunk s k) = s
   \<and> (\<forall>c \<in> set (butlast (split_chunk s k)). int (length c) = max k 1)
   \<and> split_chunk s k \<noteq> []
   \<and> int (length (last (split_chunk s k))) \<le> max k 1"
proof -
  have "\<And>c. c \<in> set (butlast (chunks (nat (max k 1)) s)) \<Longrightarrow> int (length c) = max k 1"
    using butlast_chunks_length[of _ "nat (max k 1)" s] by auto
  moreover have "int (length (last (chunks (nat (max k 1)) s))) \<le> max k 1"
  proof -
    have "0 < nat (max k 1)" by simp
    then have "length (last (chunks (nat (max k 1)) s)) \<le> nat (max k 1)"
      by (rule last_chunks_length)
    then show ?thesis by linarith
  qed
  ultimately show ?thesis
    by (simp add: split_chunk_eq_chunks concat_chunks chunks_not_Nil del: max.bounded_iff)
qed

theorem split_chunk_reconstructs_witness:
  "concat (split_chunk [1::int,1,1,1,1,1,1,1,1,1,1,1,1,1,1,1,1] 5) = [1,1,1,1,1,1,1,1,1,1,1,1,1,1,1,1,1]
   \<and> [1,1,1,1,1] \<in> set (butlast (split_chunk [1::int,1,1,1,1,1,1,1,1,1,1,1,1,1,1,1,1] 5))
   \<and> map length (split_chunk [1::int,1,1,1,1,1,1,1,1,1,1,1,1,1,1,1,1] 5) = [5, 5, 5, 2]"
proof -
  have e: "split_chunk [1::int,1,1,1,1,1,1,1,1,1,1,1,1,1,1,1,1] 5
           = [[1,1,1,1,1], [1,1,1,1,1], [1,1,1,1,1], [1,1]]"
    by code_simp
  show ?thesis
    using split_chunk_reconstructs[of "[1::int,1,1,1,1,1,1,1,1,1,1,1,1,1,1,1,1]" 5]
    by (simp add: e)
qed

lemma slice_points_argument: "snd (slice_points s points) = points @ [int (length s)]"
  by (simp add: slice_points_def Let_def)

lemma slice_points_again:
  "fst (slice_points s (points @ [int (length s)])) = fst (slice_points s points) @ [[]]"
proof -
  have z: "zip (0 # points @ [int (length s)]) (points @ [int (length s), int (length s)])
        = zip (0 # points) (points @ [int (length s)]) @ [(int (length s), int (length s))]"
    using zip_append[of "0 # points" "points @ [int (length s)]" "[int (length s)]" "[int (length s)]"]
    by simp
  have e: "py_slice s (int (length s)) (int (length s)) = []"
    by (simp add: py_slice_def Let_def)
  show ?thesis
    by (simp add: slice_points_def Let_def butlast_append z e)
qed

text \<open>
  C9. \<open>s.slice_points(points)\<close> appends \<open>len(s)\<close> to the list object \<open>points\<close> and to no other:
  after the call the object holds one more element, \<open>len(s)\<close>, at its end, and a second call
  with the same object returns a different result, the first one followed by an empty slice.
\<close>

theorem slice_points_appends_to_argument:
  "snd (slice_points_ref s points store) = store(points := store points @ [int (length s)])
   \<and> fst (slice_points_ref s points (snd (slice_points_ref s points store)))
     = fst (slice_points_ref s points store) @ [[]]
   \<and> fst (slice_points_ref s points (snd (slice_points_ref s points store)))
     \<noteq> fst (slice_points_ref s points store)"
  by (simp add: slice_points_ref_def slice_points_argument slice_points_again)

section \<open>ListExt.wrap_to_column\<close>

lemma py_max_int_Max: "ns \<noteq> [] \<Longrightarrow> py_max_int ns = Inr (Max (set ns))"
proof (cases ns)
  case Nil
  assume "ns \<noteq> []"
  with Nil show ?thesis by simp
next
  case (Cons n rest)
  have "fold max rest n = Max (set (n # rest))"
    by (rule Max.set_eq_fold[symmetric])
  with Cons show ?thesis by (simp add: py_max_int_def)
qed

lemma max_item_len_Max:
  assumes "xs \<noteq> []"
  shows "max_item_len xs = Inr (int (Max (length ` set xs)))"
proof -
  have "Max (set (len_items xs)) = Max (int ` (length ` set xs))"
    by (simp add: len_items_def image_image)
  also have "\<dots> = int (Max (length ` set xs))"
    using assms by (intro mono_Max_commute[symmetric]) (auto simp: mono_def)
  finally show ?thesis
    using assms by (simp add: max_item_len_def py_max_int_Max len_items_def)
qed

lemma ljust_pad_right: "ljust x (int w) = pad_right w x"
  by (simp add: ljust_def pad_right_def nat_diff_distrib' flip: of_nat_diff)

text \<open>
  C6, as amended. For every non-empty list of strings, \<open>wrap_to_column(width, margin)\<close> takes
  \<open>max(1, (max(width, 4) - max(margin, 2)) // (longest + 1))\<close> columns, splits the elements
  into rows of that many, pads each element with spaces on its right (\<open>str.ljust\<close>) to the
  width \<open>longest + 1\<close>, and joins each row into one string.
\<close>

theorem wrap_to_column_layout:
  assumes "xs \<noteq> []"
  shows "wrap_to_column xs width margin = Inr (column_layout pad_right xs width margin)
       \<and> (\<forall>x \<in> set xs. length (pad_right (Max (length ` set xs) + 1) x) = Max (length ` set xs) + 1)"
proof -
  let ?w = "Max (length ` set xs) + 1"
  have m: "max_item_len xs = Inr (int (Max (length ` set xs)))"
    using assms by (rule max_item_len_Max)
  let ?cols = "max 1 ((max width 4 - max margin 2) div int ?w)"
  have mi: "mod_item (int ?w) = (\<lambda>row. concat (map (pad_right ?w) row))"
    by (rule ext) (simp only: mod_item_def ljust_pad_right)
  have "wrap_to_column xs width margin = Inr (map (mod_item (int ?w)) (split_chunk xs ?cols))"
    by (simp add: wrap_to_column_def m Let_def add.commute)
  also have "split_chunk xs ?cols = chunks (nat ?cols) xs"
    by (simp only: split_chunk_eq_chunks max.left_idem max.commute[of _ 1])
  finally have 1: "wrap_to_column xs width margin = Inr (column_layout pad_right xs width margin)"
    by (simp only: column_layout_def Let_def mi)
  have 2: "length (pad_right ?w x) = ?w" if "x \<in> set xs" for x
  proof -
    have "length x \<le> Max (length ` set xs)" using that by simp
    then show ?thesis by (simp add: pad_right_def)
  qed
  from 1 2 show ?thesis by blast
qed

theorem wrap_to_column_layout_witness:
  "wrap_to_column [''apple'', ''banana'', ''cherry'', ''date''] 30 4
     = Inr [''apple  banana cherry '', ''date   '']
   \<and> column_layout pad_right [''apple'', ''banana'', ''cherry'', ''date''] 30 4
     = [''apple  banana cherry '', ''date   '']"
proof -
  have e: "wrap_to_column [''apple'', ''banana'', ''cherry'', ''date''] 30 4
      = Inr [''apple  banana cherry '', ''date   '']"
    by code_simp
  show ?thesis
    using wrap_to_column_layout[of "[''apple'', ''banana'', ''cherry'', ''date'']" 30 4]
    by (simp add: e)
qed

text \<open>
  With the padding on the left, the layout differs from what the
  method returns: the rows would read \<open>"  apple banana cherry"\<close> and \<open>"   date"\<close>.
\<close>

theorem wrap_to_column_left_pad_counterexample:
  "wrap_to_column [''apple'', ''banana'', ''cherry'', ''date''] 30 4
   \<noteq> Inr (column_layout pad_left [''apple'', ''banana'', ''cherry'', ''date''] 30 4)"
proof -
  have e: "wrap_to_column [''apple'', ''banana'', ''cherry'', ''date''] 30 4
      = Inr [''apple  banana cherry '', ''date   '']"
    by code_simp
  have c: "column_layout pad_left [''apple'', ''banana'', ''cherry'', ''date''] 30 4
      = [''  apple banana cherry'', ''   date'']"
    by code_simp
  show ?thesis by (simp add: e c)
qed

section \<open>The examples of the docstrings\<close>

lemma analyze_example:
  "analyze [(''abc'', PInt 9), (''def'', PInt 9), (''ghi'', PInt 8), (''jkl'', PInt 1), (''mno'', PInt 1)]
   = Inr \<lparr>max_value = PInt 9, min_value = PInt 1,
          max_list = [(''abc'', PInt 9), (''def'', PInt 9)],
          min_list = [(''jkl'', PInt 1), (''mno'', PInt 1)]\<rparr>"
  by code_simp

lemma analyze_mixed_example:
  "analyze [(''a'', PStr ''x''), (''b'', PInt 1)] = Inl ValueError"
  by code_simp

lemma aggregate_example:
  "aggregate remdups [(''test'', PInt 5), (''test2'', PInt 9)]
     [(''test1'', PInt 10), (''test2'', PInt 1)] (PInt 0) py_add
   = Inr [(''test'', PInt 5), (''test1'', PInt 10), (''test2'', PInt 10)]"
  by code_simp

lemma sorts_example:
  "sorts py_type py_str [PInt 9, PStr ''abc'', PNone, PStr ''aaa'', PInt 1, PInt 10] False
   = Inr [PInt 1, PInt 10, PInt 9, PStr ''aaa'', PStr ''abc'', PNone]"
  by code_simp

lemma freq_example:
  "freq py_str [PInt 1, PInt 1, PInt 2, PInt 3, PInt 5, PInt 5] False None False
   = Inr (FreqDict [(PInt 1, 2), (PInt 2, 1), (PInt 3, 1), (PInt 5, 2)])"
  by code_simp

lemma freq_increment_example:
  "freq py_str [PInt 1, PInt 1, PInt 2, PInt 3, PInt 3, PInt 4, PInt 5, PInt 6] False None True
   = Inr (FreqIncrement [2, 3, 5, 6, 7, 8])"
  by code_simp

lemma flatten_example:
  "flatten [PList [PStr ''test''], PList [PStr ''test'', PStr ''test''], PList [PStr ''test'']] False
   = [PStr ''test'', PStr ''test'', PStr ''test'', PStr ''test'']"
  by code_simp

lemma group_by_pair_value_second_example:
  "group_by_pair_value small_int_set_list [[8, 3], [4, 6], [6, 3], [5, 2], [7, 2]] 3
   = [[8, 3, 4, 6], [2, 5, 7]]"
  by code_simp

lemma slice_points_example:
  "fst (slice_points [1, 1, 2, 3, 3, 4, 5, 6 :: int] [2, 5]) = [[1, 1], [2, 3, 3], [4, 5, 6]]
   \<and> fst (slice_points [1, 1, 2, 3, 3, 4, 5, 6 :: int] []) = [[1, 1, 2, 3, 3, 4, 5, 6]]"
  by code_simp

lemma wrap_to_column_narrow_example:
  "wrap_to_column [''apple'', ''banana'', ''cherry'', ''date''] 15 4
   = Inr [''apple  '', ''banana '', ''cherry '', ''date   '']"
  by code_simp

end
